theory Spec2Isabelle
  imports Main "HOL-Library.Sublist" "HOL-Library.Multiset"
begin

section \<open>Data model\<close>

text \<open>
  Modelled from the spec: the type declaration \<^verbatim>\<open>Todo\<close>, which \<^verbatim>\<open>App.tsx\<close> imports from
  \<^verbatim>\<open>./types/Todo\<close>. The spec gives a todo record the fields id (integer), userId
  (integer), title (string) and completed (boolean); they are the fields \<^verbatim>\<open>App.tsx\<close>
  reads and writes. The field \<^verbatim>\<open>id\<close> is written \<open>id'\<close>, since \<open>id\<close> is the identity
  function of HOL.
\<close>

record Todo =
  id' :: int
  userId :: int
  title :: string
  completed :: bool

text \<open>
  \<^verbatim>\<open>Partial<Todo>\<close>: every field of \<^verbatim>\<open>Todo\<close> may be absent (\<open>None\<close>).
\<close>

record PartialTodo =
  id_opt :: "int option"
  userId_opt :: "int option"
  title_opt :: "string option"
  completed_opt :: "bool option"

text \<open>
  Modelled from the spec: the enumeration \<^verbatim>\<open>TodoStatusFilter\<close>, which \<^verbatim>\<open>App.tsx\<close> imports
  from \<^verbatim>\<open>./types/TodoStatusFilter\<close>. The spec gives it the values All, Active and
  Completed. \<^verbatim>\<open>All\<close> is written \<open>All'\<close>, since \<open>All\<close> is the universal quantifier of HOL.
\<close>

datatype TodoStatusFilter = All' | Active | Completed

text \<open>
  The outcome of one call of the API client, as the \<^verbatim>\<open>await\<close> sees it: the promise
  resolves with a value, or rejects with an error that carries a message.
\<close>

datatype 'a ApiResult = Resolved 'a | Rejected string

text \<open>The state held by the hooks of \<^verbatim>\<open>App\<close> (lines 16 to 21).\<close>

record AppState =
  todos :: "Todo list"
  statusFilter :: TodoStatusFilter
  error :: "string option"
  tempTodo :: "Todo option"
  inputTitle :: string
  isLoadingTodo :: "int list"

definition USER_ID :: int where
  "USER_ID = 10884"

definition initialState :: AppState where
  "initialState =
     \<lparr>todos = [], statusFilter = All', error = None, tempTodo = None,
      inputTitle = [], isLoadingTodo = [0]\<rparr>"

section \<open>Operations of the controller\<close>

text \<open>
  The object spread \<^verbatim>\<open>{ ...todo, ...dataToEdit }\<close>: a field present in \<^verbatim>\<open>dataToEdit\<close>
  replaces the field of \<^verbatim>\<open>todo\<close>.
\<close>

definition spread :: "Todo \<Rightarrow> PartialTodo \<Rightarrow> Todo" where
  "spread todo dataToEdit =
     \<lparr>id' = (case id_opt dataToEdit of None \<Rightarrow> id' todo | Some v \<Rightarrow> v),
      userId = (case userId_opt dataToEdit of None \<Rightarrow> userId todo | Some v \<Rightarrow> v),
      title = (case title_opt dataToEdit of None \<Rightarrow> title todo | Some v \<Rightarrow> v),
      completed = (case completed_opt dataToEdit of None \<Rightarrow> completed todo | Some v \<Rightarrow> v)\<rparr>"

text \<open>The object literal \<^verbatim>\<open>{ completed: b }\<close> of lines 144 and 146.\<close>

definition completedOnly :: "bool \<Rightarrow> PartialTodo" where
  "completedOnly b =
     \<lparr>id_opt = None, userId_opt = None, title_opt = None, completed_opt = Some b\<rparr>"

text \<open>
  An asynchronous handler runs in two parts: the part before its \<^verbatim>\<open>await\<close>, which runs
  when the handler is called, and the part after it, which runs when the promise of the
  API call settles. Other handlers may run in between. Every state update of the
  handlers is a functional update, so each part is a function of the state current when
  it runs.
\<close>

text \<open>\<^verbatim>\<open>addTodo\<close>, lines 61 to 83.\<close>

definition addTodo_begin :: "string \<Rightarrow> AppState \<Rightarrow> AppState" where
  "addTodo_begin todoTitle s =
     s\<lparr>tempTodo := Some \<lparr>id' = 0, userId = USER_ID, title = todoTitle, completed = False\<rparr>\<rparr>"

definition addTodo_settle :: "Todo ApiResult \<Rightarrow> AppState \<Rightarrow> AppState" where
  "addTodo_settle r s =
     (let s1 = (case r of
                  Resolved createdTodo \<Rightarrow> s\<lparr>todos := todos s @ [createdTodo]\<rparr>
                | Rejected _ \<Rightarrow> s\<lparr>error := Some ''Unable to add a todo''\<rparr>)
      in s1\<lparr>tempTodo := None, inputTitle := []\<rparr>)"

definition addTodo :: "string \<Rightarrow> Todo ApiResult \<Rightarrow> AppState \<Rightarrow> AppState" where
  "addTodo todoTitle r s = addTodo_settle r (addTodo_begin todoTitle s)"

text \<open>\<^verbatim>\<open>removeTodo\<close>, lines 85 to 102.\<close>

definition removeTodo_begin :: "int \<Rightarrow> AppState \<Rightarrow> AppState" where
  "removeTodo_begin todoId s = s\<lparr>isLoadingTodo := isLoadingTodo s @ [todoId]\<rparr>"

definition removeTodo_settle :: "int \<Rightarrow> unit ApiResult \<Rightarrow> AppState \<Rightarrow> AppState" where
  "removeTodo_settle todoId r s =
     (let s1 = (case r of
                  Resolved _ \<Rightarrow> s\<lparr>todos := filter (\<lambda>todo. id' todo \<noteq> todoId) (todos s)\<rparr>
                | Rejected _ \<Rightarrow> s\<lparr>error := Some ''Unable to delete a todo''\<rparr>)
      in s1\<lparr>isLoadingTodo := filter (\<lambda>i. i \<noteq> todoId) (isLoadingTodo s1)\<rparr>)"

definition removeTodo :: "int \<Rightarrow> unit ApiResult \<Rightarrow> AppState \<Rightarrow> AppState" where
  "removeTodo todoId r s = removeTodo_settle todoId r (removeTodo_begin todoId s)"

text \<open>\<^verbatim>\<open>editTodo\<close>, lines 104 to 129.\<close>

definition editTodo_begin :: "int \<Rightarrow> AppState \<Rightarrow> AppState" where
  "editTodo_begin todoId s = s\<lparr>isLoadingTodo := isLoadingTodo s @ [todoId]\<rparr>"

definition editTodo_settle ::
  "int \<Rightarrow> PartialTodo \<Rightarrow> unit ApiResult \<Rightarrow> AppState \<Rightarrow> AppState" where
  "editTodo_settle todoId dataToEdit r s =
     (let s1 = (case r of
                  Resolved _ \<Rightarrow>
                    s\<lparr>todos := map (\<lambda>todo. if id' todo \<noteq> todoId then todo
                                            else spread todo dataToEdit) (todos s)\<rparr>
                | Rejected _ \<Rightarrow> s\<lparr>error := Some ''Unable to update a todo''\<rparr>)
      in s1\<lparr>isLoadingTodo := filter (\<lambda>i. i \<noteq> todoId) (isLoadingTodo s1)\<rparr>)"

definition editTodo ::
  "int \<Rightarrow> PartialTodo \<Rightarrow> unit ApiResult \<Rightarrow> AppState \<Rightarrow> AppState" where
  "editTodo todoId properties r s =
     editTodo_settle todoId properties r (editTodo_begin todoId s)"

text \<open>
  \<^verbatim>\<open>removeAllCompletedTodos\<close>, lines 131 to 137: the ids for which \<^verbatim>\<open>removeTodo\<close> is
  called, in the order of the calls.
\<close>

definition removeAllCompletedTodos :: "Todo list \<Rightarrow> int list" where
  "removeAllCompletedTodos ts =
     concat (map (\<lambda>todo. if completed todo then [id' todo] else []) ts)"

text \<open>
  \<^verbatim>\<open>handleToggleCompletedToActive\<close>, lines 139 to 149: the calls of \<^verbatim>\<open>editTodo\<close> it
  makes, each with its two arguments, in the order of the calls.
\<close>

definition handleToggleCompletedToActive :: "Todo list \<Rightarrow> (int \<times> PartialTodo) list" where
  "handleToggleCompletedToActive ts =
     (let areAllCompleted = list_all completed ts
      in concat (map (\<lambda>todo. if areAllCompleted then [(id' todo, completedOnly False)]
                              else if \<not> completed todo then [(id' todo, completedOnly True)]
                              else []) ts))"

text \<open>The derived values of lines 155 to 162, as functions of \<^verbatim>\<open>todos\<close>.\<close>

definition activeTodosCount :: "Todo list \<Rightarrow> nat" where
  "activeTodosCount ts = length (filter (\<lambda>todo. \<not> completed todo) ts)"

definition completedTodosCount :: "Todo list \<Rightarrow> nat" where
  "completedTodosCount ts = length (filter (\<lambda>todo. completed todo) ts)"

definition isVisibleClearCompleted :: "Todo list \<Rightarrow> bool" where
  "isVisibleClearCompleted ts = (completedTodosCount ts > 0)"

definition isVisibleTodoList :: "Todo list \<Rightarrow> bool" where
  "isVisibleTodoList ts = (length ts > 0)"

definition isVisibleToggleAllActive :: "Todo list \<Rightarrow> bool" where
  "isVisibleToggleAllActive ts = (length ts > 0)"

definition isActiveToggleAllActive :: "Todo list \<Rightarrow> bool" where
  "isActiveToggleAllActive ts = (completedTodosCount ts = length ts)"

section \<open>The controller as a state machine\<close>

text \<open>
  One event is one uninterrupted run of code of \<^verbatim>\<open>App\<close>: a handler up to its \<^verbatim>\<open>await\<close>,
  or the rest of a handler once its API call has settled. A settlement carries the
  arguments its handler was called with, which the closure keeps.
\<close>

datatype Event =
    TodosLoaded "Todo list ApiResult"
  | SelectStatusFilter TodoStatusFilter
  | AddError string
  | CloseError
  | InputTodoTitle string
  | AddTodoBegin string
  | AddTodoSettle "Todo ApiResult"
  | RemoveTodoBegin int
  | RemoveTodoSettle int "unit ApiResult"
  | EditTodoBegin int
  | EditTodoSettle int PartialTodo "unit ApiResult"
  | RemoveAllCompleted
  | ToggleCompletedToActive

fun step :: "AppState \<Rightarrow> Event \<Rightarrow> AppState" where
  "step s (TodosLoaded (Resolved todosFromServer)) = s\<lparr>todos := todosFromServer\<rparr>"
| "step s (TodosLoaded (Rejected message)) = s\<lparr>error := Some message\<rparr>"
| "step s (SelectStatusFilter status) = s\<lparr>statusFilter := status\<rparr>"
| "step s (AddError errorText) = s\<lparr>error := Some errorText\<rparr>"
| "step s CloseError = s\<lparr>error := None\<rparr>"
| "step s (InputTodoTitle todoTitle) = s\<lparr>inputTitle := todoTitle\<rparr>"
| "step s (AddTodoBegin todoTitle) = addTodo_begin todoTitle s"
| "step s (AddTodoSettle r) = addTodo_settle r s"
| "step s (RemoveTodoBegin todoId) = removeTodo_begin todoId s"
| "step s (RemoveTodoSettle todoId r) = removeTodo_settle todoId r s"
| "step s (EditTodoBegin todoId) = editTodo_begin todoId s"
| "step s (EditTodoSettle todoId dataToEdit r) = editTodo_settle todoId dataToEdit r s"
| "step s RemoveAllCompleted =
     foldl (\<lambda>s' todoId. removeTodo_begin todoId s') s (removeAllCompletedTodos (todos s))"
| "step s ToggleCompletedToActive =
     foldl (\<lambda>s' call. editTodo_begin (fst call) s') s
       (handleToggleCompletedToActive (todos s))"

definition run :: "AppState \<Rightarrow> Event list \<Rightarrow> AppState" where
  "run s evs = foldl step s evs"

text \<open>
  One bulk toggle whose edits all succeed: the handler runs, then the API call of every
  edit it made resolves, here in the order of the calls.
\<close>

definition toggleAllResolved :: "AppState \<Rightarrow> AppState" where
  "toggleAllResolved s =
     run s (ToggleCompletedToActive #
            map (\<lambda>call. EditTodoSettle (fst call) (snd call) (Resolved ()))
              (handleToggleCompletedToActive (todos s)))"

text \<open>
  The id a removal or an edit is called with, for the events that are such a call or
  its settlement.
\<close>

fun operatedId :: "Event \<Rightarrow> int option" where
  "operatedId (RemoveTodoBegin todoId) = Some todoId"
| "operatedId (RemoveTodoSettle todoId r) = Some todoId"
| "operatedId (EditTodoBegin todoId) = Some todoId"
| "operatedId (EditTodoSettle todoId dataToEdit r) = Some todoId"
| "operatedId ev = None"

definition positiveIds :: "Event list \<Rightarrow> bool" where
  "positiveIds evs =
     list_all (\<lambda>ev. case operatedId ev of None \<Rightarrow> True | Some todoId \<Rightarrow> 0 < todoId) evs"

section \<open>The filter predicate\<close>

text \<open>
  Modelled from the spec: the function \<^verbatim>\<open>getFilteredTodos\<close>, which \<^verbatim>\<open>App.tsx\<close> imports
  from \<^verbatim>\<open>./helpers\<close> and calls at line 46. The spec says: given the full collection and
  a status filter, it returns the subset matching All: everything, Active: completed =
  false, Completed: completed = true.
\<close>

fun getFilteredTodos :: "Todo list \<Rightarrow> TodoStatusFilter \<Rightarrow> Todo list" where
  "getFilteredTodos ts All' = ts"
| "getFilteredTodos ts Active = filter (\<lambda>todo. completed todo = False) ts"
| "getFilteredTodos ts Completed = filter (\<lambda>todo. completed todo = True) ts"

section \<open>The timer of the error message\<close>

text \<open>
  The effect of lines 33 to 43 has the dependency list \<^verbatim>\<open>[error]\<close>: after a render in
  which \<^verbatim>\<open>error\<close> differs from its value at the render before, the cleanup of the
  last run (\<^verbatim>\<open>clearTimeout\<close>) runs, and then the body runs again. A state update that
  sets \<^verbatim>\<open>error\<close> to the value it has changes nothing, and the effect does not run.

  Time is counted in milliseconds. The state is the pair of \<^verbatim>\<open>error\<close> and of the
  timeout that is pending, if any, with the time left before it fires. There are two
  events. \<open>SetError e\<close> is one call of \<^verbatim>\<open>setError\<close> and the render after it: the call in
  the \<^verbatim>\<open>catch\<close> branch of a handler, \<^verbatim>\<open>addError\<close>, or \<^verbatim>\<open>closeError\<close>, which is
  \<open>SetError None\<close>. \<open>Elapse n\<close> is the passing of \<open>n\<close> milliseconds without a call of
  \<^verbatim>\<open>setError\<close> by a handler; when the pending timeout falls due within them, its
  callback runs \<^verbatim>\<open>setError(null)\<close>, and the effect that follows starts no timeout.
\<close>

text \<open>\<^verbatim>\<open>if (error)\<close>: \<^verbatim>\<open>null\<close> and the empty string are falsy.\<close>

definition truthy :: "string option \<Rightarrow> bool" where
  "truthy err = (case err of None \<Rightarrow> False | Some m \<Rightarrow> m \<noteq> [])"

text \<open>The body of the effect, lines 34 to 40: the timeout it starts, if any.\<close>

definition errorEffect :: "string option \<Rightarrow> nat option" where
  "errorEffect err = (if truthy err then Some 3000 else None)"

datatype TimerEvent = SetError "string option" | Elapse nat

fun timerStep :: "string option \<times> nat option \<Rightarrow> TimerEvent \<Rightarrow> string option \<times> nat option" where
  "timerStep (err, timerId) (SetError e) =
     (if e = err then (err, timerId) else (e, errorEffect e))"
| "timerStep (err, timerId) (Elapse n) =
     (case timerId of
        None \<Rightarrow> (err, None)
      | Some left \<Rightarrow> if n < left then (err, Some (left - n)) else (None, None))"

definition timerRun ::
  "string option \<times> nat option \<Rightarrow> TimerEvent list \<Rightarrow> string option \<times> nat option" where
  "timerRun st evs = foldl timerStep st evs"

section \<open>Failure leaves the collection as it was\<close>

text \<open>
  C2. When the API call of \<^verbatim>\<open>removeTodo\<close> or of \<^verbatim>\<open>editTodo\<close> rejects, the collection
  after the operation is the collection before it, and the error message is
  "Unable to delete a todo" for a removal and "Unable to update a todo" for an edit.
  This holds for the whole operation and for its settlement alone, whatever ran before
  it.
\<close>

theorem failure_keeps_todos:
  "todos (removeTodo todoId (Rejected m) s) = todos s \<and>
   error (removeTodo todoId (Rejected m) s) = Some ''Unable to delete a todo'' \<and>
   todos (editTodo todoId properties (Rejected m) s) = todos s \<and>
   error (editTodo todoId properties (Rejected m) s) = Some ''Unable to update a todo'' \<and>
   todos (removeTodo_settle todoId (Rejected m) s) = todos s \<and>
   error (removeTodo_settle todoId (Rejected m) s) = Some ''Unable to delete a todo'' \<and>
   todos (editTodo_settle todoId properties (Rejected m) s) = todos s \<and>
   error (editTodo_settle todoId properties (Rejected m) s) = Some ''Unable to update a todo''"
  by (simp add: removeTodo_def removeTodo_begin_def removeTodo_settle_def
      editTodo_def editTodo_begin_def editTodo_settle_def)

section \<open>Adding a todo\<close>

text \<open>
  C3. \<^verbatim>\<open>addTodo\<close> first sets the placeholder to the record with id 0, completed false,
  the given title and the fixed user id 10884, and leaves the collection as it is. When
  the API call resolves, the collection is the one before with the record of the server
  appended, and nothing else; when it rejects, the error message is
  "Unable to add a todo" and the collection is unchanged. In both outcomes the
  placeholder is cleared and the input title is the empty string.
\<close>

theorem addTodo_outcomes:
  "tempTodo (addTodo_begin todoTitle s) =
     Some \<lparr>id' = 0, userId = 10884, title = todoTitle, completed = False\<rparr> \<and>
   todos (addTodo_begin todoTitle s) = todos s \<and>
   todos (addTodo_settle (Resolved createdTodo) s) = todos s @ [createdTodo] \<and>
   error (addTodo_settle (Resolved createdTodo) s) = error s \<and>
   todos (addTodo_settle (Rejected m) s) = todos s \<and>
   error (addTodo_settle (Rejected m) s) = Some ''Unable to add a todo'' \<and>
   tempTodo (addTodo_settle r s) = None \<and>
   inputTitle (addTodo_settle r s) = [] \<and>
   todos (addTodo todoTitle (Resolved createdTodo) s) = todos s @ [createdTodo] \<and>
   todos (addTodo todoTitle (Rejected m) s) = todos s \<and>
   error (addTodo todoTitle (Rejected m) s) = Some ''Unable to add a todo'' \<and>
   tempTodo (addTodo todoTitle r s) = None \<and>
   inputTitle (addTodo todoTitle r s) = []"
  by (cases r) (simp_all add: addTodo_def addTodo_begin_def addTodo_settle_def USER_ID_def)

section \<open>The pending list after a settlement\<close>

text \<open>
  C5. After a removal or an edit of an id has settled, with the API call resolved or
  rejected, the id is not in the pending list \<^verbatim>\<open>isLoadingTodo\<close>. This holds for the
  whole operation run alone, and for the settlement from any state.
\<close>

theorem settled_id_not_pending:
  "todoId \<notin> set (isLoadingTodo (removeTodo todoId r s)) \<and>
   todoId \<notin> set (isLoadingTodo (editTodo todoId properties r s)) \<and>
   todoId \<notin> set (isLoadingTodo (removeTodo_settle todoId r s)) \<and>
   todoId \<notin> set (isLoadingTodo (editTodo_settle todoId properties r s))"
  by (cases r) (simp_all add: removeTodo_def removeTodo_begin_def removeTodo_settle_def
      editTodo_def editTodo_begin_def editTodo_settle_def)

section \<open>Edits of the completed flag\<close>

lemma spread_completedOnly:
  "spread todo (completedOnly b) = todo\<lparr>completed := b\<rparr>"
  by (simp add: spread_def completedOnly_def)

lemma todos_editTodo_settle_Resolved:
  "todos (editTodo_settle todoId dataToEdit (Resolved u) s) =
     map (\<lambda>todo. if id' todo \<noteq> todoId then todo else spread todo dataToEdit) (todos s)"
  by (simp add: editTodo_settle_def)

lemma todos_editTodo_begin: "todos (editTodo_begin todoId s) = todos s"
  by (simp add: editTodo_begin_def)

text \<open>
  C7. Merging the successful edit \<^verbatim>\<open>{ completed: b }\<close> of an id into the collection
  twice gives the collection that merging it once gives.
\<close>

theorem completed_edit_idempotent:
  "todos (editTodo_settle todoId (completedOnly b) (Resolved u)
            (editTodo_settle todoId (completedOnly b) (Resolved u') s)) =
   todos (editTodo_settle todoId (completedOnly b) (Resolved u') s) \<and>
   todos (editTodo todoId (completedOnly b) (Resolved u)
            (editTodo todoId (completedOnly b) (Resolved u') s)) =
   todos (editTodo todoId (completedOnly b) (Resolved u') s)"
  by (simp add: editTodo_def todos_editTodo_settle_Resolved todos_editTodo_begin
      spread_completedOnly)

section \<open>The bulk toggle\<close>

lemma concat_map_if_filter:
  "concat (map (\<lambda>x. if P x then [f x] else []) xs) = map f (filter P xs)"
  by (induction xs) simp_all

lemma handleToggle_all:
  "list_all completed ts \<Longrightarrow>
   handleToggleCompletedToActive ts = map (\<lambda>todo. (id' todo, completedOnly False)) ts"
  by (simp add: handleToggleCompletedToActive_def)

lemma handleToggle_some:
  "\<not> list_all completed ts \<Longrightarrow>
   handleToggleCompletedToActive ts =
     map (\<lambda>todo. (id' todo, completedOnly True)) (filter (\<lambda>todo. \<not> completed todo) ts)"
  by (simp add: handleToggleCompletedToActive_def concat_map_if_filter)

lemma handleToggle_calls:
  "handleToggleCompletedToActive ts =
     map (\<lambda>todoId. (todoId, completedOnly (\<not> list_all completed ts)))
       (map id' (if list_all completed ts then ts else filter (\<lambda>todo. \<not> completed todo) ts))"
  by (cases "list_all completed ts") (simp_all add: handleToggle_all handleToggle_some)

lemma todos_foldl_editTodo_begin:
  "todos (foldl (\<lambda>s' call. editTodo_begin (fst call) s') s calls) = todos s"
  by (induction calls arbitrary: s) (simp_all add: todos_editTodo_begin)

lemma todos_run_settle_completed:
  "todos (run s (map (\<lambda>todoId. EditTodoSettle todoId (completedOnly b) (Resolved u)) ids)) =
     map (\<lambda>todo. if id' todo \<in> set ids then todo\<lparr>completed := b\<rparr> else todo) (todos s)"
proof (induction ids arbitrary: s)
  case Nil
  show ?case by (simp add: run_def)
next
  case (Cons i ids)
  have "todos (run s (map (\<lambda>todoId. EditTodoSettle todoId (completedOnly b) (Resolved u)) (i # ids))) =
        todos (run (editTodo_settle i (completedOnly b) (Resolved u) s)
                 (map (\<lambda>todoId. EditTodoSettle todoId (completedOnly b) (Resolved u)) ids))"
    by (simp add: run_def)
  also have "\<dots> = map (\<lambda>todo. if id' todo \<in> set ids then todo\<lparr>completed := b\<rparr> else todo)
                     (todos (editTodo_settle i (completedOnly b) (Resolved u) s))"
    by (rule Cons.IH)
  also have "\<dots> = map (\<lambda>todo. if id' todo \<in> set (i # ids) then todo\<lparr>completed := b\<rparr> else todo)
                     (todos s)"
    by (simp add: todos_editTodo_settle_Resolved spread_completedOnly)
  finally show ?case .
qed

lemma todos_toggle_any_order:
  assumes "set order = set (handleToggleCompletedToActive (todos s))"
  shows "todos (run s (ToggleCompletedToActive #
            map (\<lambda>call. EditTodoSettle (fst call) (snd call) (Resolved ())) order)) =
         map (\<lambda>todo. todo\<lparr>completed := \<not> list_all completed (todos s)\<rparr>) (todos s)"
proof -
  let ?ts = "todos s"
  let ?b = "\<not> list_all completed ?ts"
  let ?ids = "map id' (if list_all completed ?ts then ?ts
                       else filter (\<lambda>todo. \<not> completed todo) ?ts)"
  let ?s1 = "step s ToggleCompletedToActive"
  have s1: "todos ?s1 = ?ts"
    by (simp add: todos_foldl_editTodo_begin)
  have calls: "set order = (\<lambda>todoId. (todoId, completedOnly ?b)) ` set ?ids"
    unfolding assms by (subst handleToggle_calls) (simp only: set_map)
  then have "\<forall>call \<in> set order. snd call = completedOnly ?b"
    by auto
  then have settles:
    "map (\<lambda>call. EditTodoSettle (fst call) (snd call) (Resolved ())) order =
     map (\<lambda>todoId. EditTodoSettle todoId (completedOnly ?b) (Resolved ())) (map fst order)"
    by (simp add: comp_def)
  have ids: "set (map fst order) = set ?ids"
    unfolding set_map calls by (simp only: image_image fst_conv image_ident)
  have "run s (ToggleCompletedToActive #
            map (\<lambda>call. EditTodoSettle (fst call) (snd call) (Resolved ())) order) =
        run ?s1 (map (\<lambda>todoId. EditTodoSettle todoId (completedOnly ?b) (Resolved ()))
                  (map fst order))"
    unfolding settles by (simp add: run_def del: step.simps)
  then have "todos (run s (ToggleCompletedToActive #
            map (\<lambda>call. EditTodoSettle (fst call) (snd call) (Resolved ())) order)) =
        map (\<lambda>todo. if id' todo \<in> set ?ids then todo\<lparr>completed := ?b\<rparr> else todo) ?ts"
    by (simp only: todos_run_settle_completed s1 ids)
  also have "\<dots> = map (\<lambda>todo. todo\<lparr>completed := ?b\<rparr>) ?ts"
  proof (rule map_cong[OF refl])
    fix todo assume mem: "todo \<in> set ?ts"
    show "(if id' todo \<in> set ?ids then todo\<lparr>completed := ?b\<rparr> else todo) = todo\<lparr>completed := ?b\<rparr>"
    proof (cases "list_all completed ?ts")
      case True
      with mem have "id' todo \<in> set ?ids" by simp
      then show ?thesis by simp
    next
      case False
      show ?thesis
      proof (cases "completed todo")
        case True
        with False show ?thesis by simp
      next
        case c: False
        with mem False have "id' todo \<in> set ?ids" by auto
        then show ?thesis by simp
      qed
    qed
  qed
  finally show ?thesis .
qed

lemma todos_toggleAllResolved:
  "todos (toggleAllResolved s) =
     map (\<lambda>todo. todo\<lparr>completed := \<not> list_all completed (todos s)\<rparr>) (todos s)"
  unfolding toggleAllResolved_def by (rule todos_toggle_any_order) (rule refl)

text \<open>
  C1. When every record is completed, \<^verbatim>\<open>handleToggleCompletedToActive\<close> calls \<^verbatim>\<open>editTodo\<close>
  with \<^verbatim>\<open>{ completed: false }\<close> for every record; otherwise it calls it with
  \<^verbatim>\<open>{ completed: true }\<close> for the records that are not completed, and makes no call
  for a completed record. When all these edits succeed, in the order of the calls or in
  any other order, every record has its completed flag set to true if some record was
  not completed and to false if all were. For two records of which one is completed and
  one is not, one bulk toggle makes both completed and a second one makes both not
  completed.
\<close>

theorem bulk_toggle:
  "handleToggleCompletedToActive ts =
     (if list_all completed ts then map (\<lambda>todo. (id' todo, completedOnly False)) ts
      else map (\<lambda>todo. (id' todo, completedOnly True))
             (filter (\<lambda>todo. \<not> completed todo) ts)) \<and>
   todos (toggleAllResolved s) =
     map (\<lambda>todo. todo\<lparr>completed := \<not> list_all completed (todos s)\<rparr>) (todos s) \<and>
   (set order = set (handleToggleCompletedToActive (todos s)) \<longrightarrow>
      todos (run s (ToggleCompletedToActive #
               map (\<lambda>call. EditTodoSettle (fst call) (snd call) (Resolved ())) order)) =
        map (\<lambda>todo. todo\<lparr>completed := \<not> list_all completed (todos s)\<rparr>) (todos s)) \<and>
   (todos s = [t1, t2] \<and> completed t1 \<noteq> completed t2 \<longrightarrow>
      map completed (todos (toggleAllResolved s)) = [True, True] \<and>
      map completed (todos (toggleAllResolved (toggleAllResolved s))) = [False, False])"
proof (intro conjI impI)
  show "handleToggleCompletedToActive ts =
     (if list_all completed ts then map (\<lambda>todo. (id' todo, completedOnly False)) ts
      else map (\<lambda>todo. (id' todo, completedOnly True))
             (filter (\<lambda>todo. \<not> completed todo) ts))"
    by (simp add: handleToggle_all handleToggle_some)
next
  show "todos (toggleAllResolved s) =
     map (\<lambda>todo. todo\<lparr>completed := \<not> list_all completed (todos s)\<rparr>) (todos s)"
    by (rule todos_toggleAllResolved)
next
  assume "set order = set (handleToggleCompletedToActive (todos s))"
  then show "todos (run s (ToggleCompletedToActive #
               map (\<lambda>call. EditTodoSettle (fst call) (snd call) (Resolved ())) order)) =
        map (\<lambda>todo. todo\<lparr>completed := \<not> list_all completed (todos s)\<rparr>) (todos s)"
    by (rule todos_toggle_any_order)
next
  assume a: "todos s = [t1, t2] \<and> completed t1 \<noteq> completed t2"
  then have once: "todos (toggleAllResolved s) = [t1\<lparr>completed := True\<rparr>, t2\<lparr>completed := True\<rparr>]"
    by (auto simp: todos_toggleAllResolved)
  then show "map completed (todos (toggleAllResolved s)) = [True, True]"
    by simp
  from once show "map completed (todos (toggleAllResolved (toggleAllResolved s))) = [False, False]"
    by (simp add: todos_toggleAllResolved [of "toggleAllResolved s"])
qed

theorem bulk_toggle_witness:
  "todos (initialState\<lparr>todos :=
       [\<lparr>id' = 1, userId = 10884, title = ''Buy milk'', completed = True\<rparr>,
        \<lparr>id' = 2, userId = 10884, title = ''Walk the dog'', completed = False\<rparr>]\<rparr>) =
     [\<lparr>id' = 1, userId = 10884, title = ''Buy milk'', completed = True\<rparr>,
      \<lparr>id' = 2, userId = 10884, title = ''Walk the dog'', completed = False\<rparr>] \<and>
   completed \<lparr>id' = 1, userId = 10884, title = ''Buy milk'', completed = True\<rparr> \<noteq>
   completed \<lparr>id' = 2, userId = 10884, title = ''Walk the dog'', completed = False\<rparr> \<and>
   set [(2, completedOnly True)] = set (handleToggleCompletedToActive (todos
     (initialState\<lparr>todos :=
       [\<lparr>id' = 1, userId = 10884, title = ''Buy milk'', completed = True\<rparr>,
        \<lparr>id' = 2, userId = 10884, title = ''Walk the dog'', completed = False\<rparr>]\<rparr>))) \<and>
   map completed (todos (toggleAllResolved (initialState\<lparr>todos :=
       [\<lparr>id' = 1, userId = 10884, title = ''Buy milk'', completed = True\<rparr>,
        \<lparr>id' = 2, userId = 10884, title = ''Walk the dog'', completed = False\<rparr>]\<rparr>))) =
     [True, True] \<and>
   map completed (todos (toggleAllResolved (toggleAllResolved (initialState\<lparr>todos :=
       [\<lparr>id' = 1, userId = 10884, title = ''Buy milk'', completed = True\<rparr>,
        \<lparr>id' = 2, userId = 10884, title = ''Walk the dog'', completed = False\<rparr>]\<rparr>)))) =
     [False, False]"
  using bulk_toggle [of "[]"
      "initialState\<lparr>todos :=
       [\<lparr>id' = 1, userId = 10884, title = ''Buy milk'', completed = True\<rparr>,
        \<lparr>id' = 2, userId = 10884, title = ''Walk the dog'', completed = False\<rparr>]\<rparr>"
      "[(2, completedOnly True)]"
      "\<lparr>id' = 1, userId = 10884, title = ''Buy milk'', completed = True\<rparr>"
      "\<lparr>id' = 2, userId = 10884, title = ''Walk the dog'', completed = False\<rparr>"]
  by (simp add: handleToggleCompletedToActive_def)

section \<open>The id 0 in the pending list\<close>

lemma set_isLoadingTodo_foldl_remove_begin:
  "set (isLoadingTodo s) \<subseteq>
   set (isLoadingTodo (foldl (\<lambda>s' todoId. removeTodo_begin todoId s') s ids))"
proof (induction ids arbitrary: s)
  case Nil
  show ?case by simp
next
  case (Cons i ids)
  have "set (isLoadingTodo s) \<subseteq> set (isLoadingTodo (removeTodo_begin i s))"
    by (auto simp: removeTodo_begin_def)
  also have "\<dots> \<subseteq> set (isLoadingTodo (foldl (\<lambda>s' todoId. removeTodo_begin todoId s')
                                       (removeTodo_begin i s) ids))"
    by (rule Cons.IH)
  finally show ?case by simp
qed

lemma set_isLoadingTodo_foldl_edit_begin:
  "set (isLoadingTodo s) \<subseteq>
   set (isLoadingTodo (foldl (\<lambda>s' call. editTodo_begin (fst call) s') s calls))"
proof (induction calls arbitrary: s)
  case Nil
  show ?case by simp
next
  case (Cons c calls)
  have "set (isLoadingTodo s) \<subseteq> set (isLoadingTodo (editTodo_begin (fst c) s))"
    by (auto simp: editTodo_begin_def)
  also have "\<dots> \<subseteq> set (isLoadingTodo (foldl (\<lambda>s' call. editTodo_begin (fst call) s')
                                       (editTodo_begin (fst c) s) calls))"
    by (rule Cons.IH)
  finally show ?case by simp
qed

lemma isLoadingTodo_removeTodo_settle:
  "isLoadingTodo (removeTodo_settle todoId r s) = filter (\<lambda>i. i \<noteq> todoId) (isLoadingTodo s)"
  by (cases r) (simp_all add: removeTodo_settle_def)

lemma isLoadingTodo_editTodo_settle:
  "isLoadingTodo (editTodo_settle todoId dataToEdit r s) =
     filter (\<lambda>i. i \<noteq> todoId) (isLoadingTodo s)"
  by (cases r) (simp_all add: editTodo_settle_def)

lemma isLoadingTodo_addTodo_settle:
  "isLoadingTodo (addTodo_settle r s) = isLoadingTodo s"
  by (cases r) (simp_all add: addTodo_settle_def)

lemma step_keeps_placeholder_id:
  assumes "0 \<in> set (isLoadingTodo s)"
    and "case operatedId ev of None \<Rightarrow> True | Some todoId \<Rightarrow> 0 < todoId"
  shows "0 \<in> set (isLoadingTodo (step s ev))"
proof (cases ev)
  case (TodosLoaded r)
  with assms(1) show ?thesis by (cases r) simp_all
next
  case (AddTodoSettle r)
  with assms(1) show ?thesis by (simp add: isLoadingTodo_addTodo_settle)
next
  case (RemoveTodoSettle todoId r)
  with assms show ?thesis by (simp add: isLoadingTodo_removeTodo_settle)
next
  case (EditTodoSettle todoId dataToEdit r)
  with assms show ?thesis by (simp add: isLoadingTodo_editTodo_settle)
next
  case RemoveAllCompleted
  with assms(1) set_isLoadingTodo_foldl_remove_begin show ?thesis by auto
next
  case ToggleCompletedToActive
  with assms(1) set_isLoadingTodo_foldl_edit_begin show ?thesis by auto
qed (use assms(1) in \<open>simp_all add: addTodo_begin_def removeTodo_begin_def editTodo_begin_def\<close>)

lemma run_keeps_placeholder_id:
  "0 \<in> set (isLoadingTodo s) \<Longrightarrow> positiveIds evs \<Longrightarrow> 0 \<in> set (isLoadingTodo (run s evs))"
proof (induction evs arbitrary: s)
  case Nil
  then show ?case by (simp add: run_def)
next
  case (Cons ev evs)
  from Cons.prems have "0 \<in> set (isLoadingTodo (step s ev))"
    by (intro step_keeps_placeholder_id) (simp_all add: positiveIds_def)
  moreover from Cons.prems have "positiveIds evs"
    by (simp add: positiveIds_def)
  ultimately have "0 \<in> set (isLoadingTodo (run (step s ev) evs))"
    by (rule Cons.IH)
  then show ?case by (simp add: run_def)
qed

text \<open>
  C10. The pending list starts as the list that holds the id 0 alone. A settlement
  removes from the list the id of its operation and no other id. Along every run of
  the controller in which each removal and each edit is called with a positive id, the
  id 0 stays in the pending list, so the list is never empty.
\<close>

theorem placeholder_id_stays_pending:
  "isLoadingTodo initialState = [0] \<and>
   set (isLoadingTodo (removeTodo_settle todoId r s)) = set (isLoadingTodo s) - {todoId} \<and>
   set (isLoadingTodo (editTodo_settle todoId dataToEdit r s)) =
     set (isLoadingTodo s) - {todoId} \<and>
   (positiveIds evs \<longrightarrow>
      0 \<in> set (isLoadingTodo (run initialState evs)) \<and>
      isLoadingTodo (run initialState evs) \<noteq> [])"
proof (intro conjI impI)
  show "isLoadingTodo initialState = [0]"
    by (simp add: initialState_def)
  show "set (isLoadingTodo (removeTodo_settle todoId r s)) = set (isLoadingTodo s) - {todoId}"
    unfolding isLoadingTodo_removeTodo_settle by auto
  show "set (isLoadingTodo (editTodo_settle todoId dataToEdit r s)) =
      set (isLoadingTodo s) - {todoId}"
    unfolding isLoadingTodo_editTodo_settle by auto
next
  assume pos: "positiveIds evs"
  have "0 \<in> set (isLoadingTodo initialState)"
    by (simp add: initialState_def)
  then show mem: "0 \<in> set (isLoadingTodo (run initialState evs))"
    using pos by (rule run_keeps_placeholder_id)
  then show "isLoadingTodo (run initialState evs) \<noteq> []"
    by auto
qed

theorem placeholder_id_stays_pending_witness:
  "positiveIds [AddTodoBegin ''Buy milk'',
      AddTodoSettle (Resolved \<lparr>id' = 7, userId = 10884, title = ''Buy milk'', completed = False\<rparr>),
      EditTodoBegin 7, RemoveTodoBegin 7,
      EditTodoSettle 7 (completedOnly True) (Resolved ()),
      RemoveTodoSettle 7 (Rejected ''Failed to fetch'')] \<and>
   0 \<in> set (isLoadingTodo (run initialState [AddTodoBegin ''Buy milk'',
      AddTodoSettle (Resolved \<lparr>id' = 7, userId = 10884, title = ''Buy milk'', completed = False\<rparr>),
      EditTodoBegin 7, RemoveTodoBegin 7,
      EditTodoSettle 7 (completedOnly True) (Resolved ()),
      RemoveTodoSettle 7 (Rejected ''Failed to fetch'')]))"
  using placeholder_id_stays_pending [of 7 "Resolved ()" initialState "completedOnly True"
      "[AddTodoBegin ''Buy milk'',
      AddTodoSettle (Resolved \<lparr>id' = 7, userId = 10884, title = ''Buy milk'', completed = False\<rparr>),
      EditTodoBegin 7, RemoveTodoBegin 7,
      EditTodoSettle 7 (completedOnly True) (Resolved ()),
      RemoveTodoSettle 7 (Rejected ''Failed to fetch'')]"]
  by (simp add: positiveIds_def)

section \<open>Two operations on one id\<close>

lemma count_list_filter_other:
  "j \<noteq> todoId \<Longrightarrow> count_list (filter (\<lambda>i. i \<noteq> todoId) xs) j = count_list xs j"
  by (induction xs) simp_all

text \<open>
  C6, as the claim states it, fails: two edits of the id 5 are in flight and the list
  holds the id twice; the settlement of the first edit leaves the list without the id.
\<close>

theorem second_operation_not_pending_counterexample:
  "isLoadingTodo (run initialState [EditTodoBegin 5, EditTodoBegin 5]) = [0, 5, 5] \<and>
   isLoadingTodo (run initialState
      [EditTodoBegin 5, EditTodoBegin 5,
       EditTodoSettle 5 (completedOnly True) (Resolved ())]) = [0] \<and>
   5 \<notin> set (isLoadingTodo (run initialState
      [EditTodoBegin 5, EditTodoBegin 5,
       EditTodoSettle 5 (completedOnly True) (Resolved ())]))"
  by (simp add: run_def initialState_def editTodo_begin_def editTodo_settle_def)

text \<open>
  C6, amended. The settlement of a removal or of an edit filters the pending list by
  value: it removes every occurrence of its id and leaves the occurrences of every other
  id as they are. So when two operations on one id are in flight, the list holds the id
  twice, and after the first of the two settles the id is not in the list, although the
  second operation is still in flight.
\<close>

theorem settlement_clears_every_membership:
  "isLoadingTodo (removeTodo_settle todoId r s) =
     filter (\<lambda>i. i \<noteq> todoId) (isLoadingTodo s) \<and>
   isLoadingTodo (editTodo_settle todoId dataToEdit r s) =
     filter (\<lambda>i. i \<noteq> todoId) (isLoadingTodo s) \<and>
   count_list (isLoadingTodo (run s [EditTodoBegin todoId, EditTodoBegin todoId])) todoId =
     count_list (isLoadingTodo s) todoId + 2 \<and>
   todoId \<notin> set (isLoadingTodo (run s
     [EditTodoBegin todoId, EditTodoBegin todoId, EditTodoSettle todoId dataToEdit r])) \<and>
   todoId \<notin> set (isLoadingTodo (run s
     [EditTodoBegin todoId, RemoveTodoBegin todoId, EditTodoSettle todoId dataToEdit r])) \<and>
   todoId \<notin> set (isLoadingTodo (run s
     [EditTodoBegin todoId, RemoveTodoBegin todoId, RemoveTodoSettle todoId r])) \<and>
   todoId \<notin> set (isLoadingTodo (run s
     [RemoveTodoBegin todoId, RemoveTodoBegin todoId, RemoveTodoSettle todoId r])) \<and>
   (\<forall>j. j \<noteq> todoId \<longrightarrow>
      count_list (isLoadingTodo (removeTodo_settle todoId r s)) j =
        count_list (isLoadingTodo s) j \<and>
      count_list (isLoadingTodo (editTodo_settle todoId dataToEdit r s)) j =
        count_list (isLoadingTodo s) j)"
  by (simp add: run_def isLoadingTodo_removeTodo_settle isLoadingTodo_editTodo_settle
      count_list_filter_other editTodo_begin_def removeTodo_begin_def)

theorem settlement_clears_every_membership_witness:
  "(7::int) \<noteq> 5 \<and>
   count_list (isLoadingTodo (initialState\<lparr>isLoadingTodo := [0, 5, 7, 5, 7]\<rparr>)) 7 = 2 \<and>
   count_list (isLoadingTodo (editTodo_settle 5 (completedOnly True) (Resolved ())
      (initialState\<lparr>isLoadingTodo := [0, 5, 7, 5, 7]\<rparr>))) 7 = 2 \<and>
   isLoadingTodo (editTodo_settle 5 (completedOnly True) (Resolved ())
      (initialState\<lparr>isLoadingTodo := [0, 5, 7, 5, 7]\<rparr>)) = [0, 7, 7]"
  using settlement_clears_every_membership [of 5 "Resolved ()"
      "initialState\<lparr>isLoadingTodo := [0, 5, 7, 5, 7]\<rparr>" "completedOnly True"]
  by (simp add: initialState_def)

section \<open>Derived values\<close>

lemma length_filter_eq_length:
  "(length (filter P xs) = length xs) = list_all P xs"
proof (induction xs)
  case Nil
  show ?case by simp
next
  case (Cons x xs)
  have "length (filter P xs) \<le> length xs"
    by (rule length_filter_le)
  then have "length (filter P xs) \<noteq> Suc (length xs)"
    by linarith
  with Cons show ?case by simp
qed

text \<open>
  C8. The active count is the number of records that are not completed and the
  completed count the number of records that are; together they count every record.
  The list and the footer are visible exactly when the collection is not empty,
  "clear completed" exactly when the completed count is positive, that is when some
  record is completed, and the "toggle all" control is active exactly when the
  completed count is the length of the collection, that is when every record is
  completed.
\<close>

theorem derived_values:
  "activeTodosCount ts = card {i. i < length ts \<and> completed (ts ! i) = False} \<and>
   completedTodosCount ts = card {i. i < length ts \<and> completed (ts ! i) = True} \<and>
   activeTodosCount ts + completedTodosCount ts = length ts \<and>
   isVisibleTodoList ts = (ts \<noteq> []) \<and>
   isVisibleClearCompleted ts = (completedTodosCount ts > 0) \<and>
   isVisibleClearCompleted ts = (\<exists>todo \<in> set ts. completed todo) \<and>
   isActiveToggleAllActive ts = (completedTodosCount ts = length ts) \<and>
   isActiveToggleAllActive ts = list_all completed ts"
proof (intro conjI)
  show "activeTodosCount ts = card {i. i < length ts \<and> completed (ts ! i) = False}"
    by (simp add: activeTodosCount_def length_filter_conv_card)
  show "completedTodosCount ts = card {i. i < length ts \<and> completed (ts ! i) = True}"
    by (simp add: completedTodosCount_def length_filter_conv_card)
  show "activeTodosCount ts + completedTodosCount ts = length ts"
    using sum_length_filter_compl [of completed ts]
    by (simp add: activeTodosCount_def completedTodosCount_def)
  show "isVisibleTodoList ts = (ts \<noteq> [])"
    by (simp add: isVisibleTodoList_def)
  show "isVisibleClearCompleted ts = (completedTodosCount ts > 0)"
    by (simp add: isVisibleClearCompleted_def)
  show "isVisibleClearCompleted ts = (\<exists>todo \<in> set ts. completed todo)"
    by (simp add: isVisibleClearCompleted_def completedTodosCount_def filter_empty_conv)
  show "isActiveToggleAllActive ts = (completedTodosCount ts = length ts)"
    by (simp add: isActiveToggleAllActive_def)
  show "isActiveToggleAllActive ts = list_all completed ts"
    by (simp add: isActiveToggleAllActive_def completedTodosCount_def
        length_filter_eq_length)
qed

section \<open>The results of the filter\<close>

text \<open>
  C4. \<^verbatim>\<open>getFilteredTodos\<close> with All returns the collection as it is; with Active it
  returns the records that are not completed and with Completed the records that are,
  both in the order of the collection. Every result is a subsequence of the collection,
  and the Active and the Completed results together hold every record once. The
  function is a function of its two arguments alone and changes no state.
\<close>

theorem getFilteredTodos_subsets:
  "getFilteredTodos ts All' = ts \<and>
   getFilteredTodos ts Active = filter (\<lambda>todo. \<not> completed todo) ts \<and>
   getFilteredTodos ts Completed = filter (\<lambda>todo. completed todo) ts \<and>
   subseq (getFilteredTodos ts status) ts \<and>
   set (getFilteredTodos ts Active) = {todo \<in> set ts. \<not> completed todo} \<and>
   set (getFilteredTodos ts Completed) = {todo \<in> set ts. completed todo} \<and>
   mset (getFilteredTodos ts Active) + mset (getFilteredTodos ts Completed) = mset ts"
  by (cases status) simp_all

section \<open>Clearing the error message\<close>

lemma timerStep_pending_iff:
  assumes "(snd st \<noteq> None) = truthy (fst st)"
  shows "(snd (timerStep st ev) \<noteq> None) = truthy (fst (timerStep st ev))"
proof (cases st)
  case (Pair err timerId)
  show ?thesis
  proof (cases ev)
    case (SetError e)
    with Pair assms show ?thesis
      by (simp add: errorEffect_def)
  next
    case (Elapse n)
    with Pair assms show ?thesis
      by (cases timerId) (simp_all add: truthy_def)
  qed
qed

lemma timerRun_pending_iff:
  "(snd st \<noteq> None) = truthy (fst st) \<Longrightarrow>
   (snd (timerRun st evs) \<noteq> None) = truthy (fst (timerRun st evs))"
proof (induction evs arbitrary: st)
  case Nil
  then show ?case by (simp add: timerRun_def)
next
  case (Cons ev evs)
  from Cons.prems have "(snd (timerStep st ev) \<noteq> None) = truthy (fst (timerStep st ev))"
    by (rule timerStep_pending_iff)
  then have "(snd (timerRun (timerStep st ev) evs) \<noteq> None) =
             truthy (fst (timerRun (timerStep st ev) evs))"
    by (rule Cons.IH)
  then show ?case by (simp add: timerRun_def)
qed

text \<open>
  C9, as the claim states it, fails: an error is set, and 2 seconds later a new error
  with the same message is set. The timer is not started again: 1 second is left, and
  when it has passed the message is cleared.
\<close>

theorem same_message_keeps_timer_counterexample:
  "timerRun (None, None)
     [SetError (Some ''Unable to delete a todo''), Elapse 2000,
      SetError (Some ''Unable to delete a todo'')] =
     (Some ''Unable to delete a todo'', Some 1000) \<and>
   timerRun (None, None)
     [SetError (Some ''Unable to delete a todo''), Elapse 2000,
      SetError (Some ''Unable to delete a todo''), Elapse 1000] = (None, None)"
  by (simp add: timerRun_def errorEffect_def truthy_def)

text \<open>
  C9, amended. A state update that changes the error message cancels the timeout that
  is pending and, when the new message is not empty, starts a timeout of 3 seconds; a
  dismissal is such a change, to no message. A state update that sets the message
  shown already leaves the pending timeout as it is. While less time than is left has
  passed the message stays; once the time left has passed, the message is cleared. So
  a message is cleared 3 seconds after it was set, unless the message was changed or
  dismissed before. In every state reached from the start a timeout is pending exactly
  when the message is not empty.
\<close>

theorem error_timer_restarts_on_change:
  "(e \<noteq> err \<longrightarrow>
      timerStep (err, timerId) (SetError e) = (e, if truthy e then Some 3000 else None)) \<and>
   timerStep (err, timerId) (SetError err) = (err, timerId) \<and>
   (err \<noteq> None \<longrightarrow> timerStep (err, timerId) (SetError None) = (None, None)) \<and>
   (n < left \<longrightarrow> timerStep (err, Some left) (Elapse n) = (err, Some (left - n))) \<and>
   timerStep (err, Some left) (Elapse (left + k)) = (None, None) \<and>
   (e \<noteq> err \<and> truthy e \<and> n < 3000 \<longrightarrow>
      timerRun (err, timerId) [SetError e, Elapse n] = (e, Some (3000 - n))) \<and>
   (e \<noteq> err \<and> truthy e \<longrightarrow>
      timerRun (err, timerId) [SetError e, Elapse 3000] = (None, None)) \<and>
   (snd (timerRun (None, None) evs) \<noteq> None) = truthy (fst (timerRun (None, None) evs))"
proof (intro conjI impI)
  show "(snd (timerRun (None, None) evs) \<noteq> None) = truthy (fst (timerRun (None, None) evs))"
    by (rule timerRun_pending_iff) (simp add: truthy_def)
qed (auto simp: timerRun_def errorEffect_def truthy_def)

theorem error_timer_restarts_on_change_witness:
  "Some ''Unable to update a todo'' \<noteq> Some ''Unable to delete a todo'' \<and>
   truthy (Some ''Unable to update a todo'') \<and>
   Some ''Unable to delete a todo'' \<noteq> None \<and> (500::nat) < 1000 \<and> (500::nat) < 3000 \<and>
   timerStep (Some ''Unable to delete a todo'', Some 1000)
     (SetError (Some ''Unable to update a todo'')) =
     (Some ''Unable to update a todo'', Some 3000) \<and>
   timerStep (Some ''Unable to delete a todo'', Some 1000) (SetError None) = (None, None) \<and>
   timerStep (Some ''Unable to delete a todo'', Some 1000) (Elapse 500) =
     (Some ''Unable to delete a todo'', Some 500) \<and>
   timerRun (Some ''Unable to delete a todo'', Some 1000)
     [SetError (Some ''Unable to update a todo''), Elapse 500] =
     (Some ''Unable to update a todo'', Some 2500) \<and>
   timerRun (Some ''Unable to delete a todo'', Some 1000)
     [SetError (Some ''Unable to update a todo''), Elapse 3000] = (None, None)"
  using error_timer_restarts_on_change [of "Some ''Unable to update a todo''"
      "Some ''Unable to delete a todo''" "Some 1000" 500 1000 0 "[]"]
  by (simp add: truthy_def)

end
